theory Spec2Isabelle
  imports Complex_Main "HOL-Library.Word" "HOL-Library.Log_Nat"
begin

section \<open>Python values and exceptions\<close>

text \<open>
  The script \<^verbatim>\<open>create_rtp_pcap.py\<close> builds a PCAP capture of 50 RTP packets with
  \<^verbatim>\<open>struct.pack\<close>, byte-string concatenation and a little float arithmetic.  Python
  integers are unbounded (\<^typ>\<open>int\<close>); a byte string is a list of 8-bit words; every
  exception the script's own expressions can raise is a value of \<open>error\<close>, and a
  function that may raise returns \<open>error + 'a\<close>.
\<close>

datatype error = StructError | OverflowError | ValueError | ZeroDivisionError

type_synonym byte = "8 word"
type_synonym bytes = "byte list"

definition and_then :: "error + 'a \<Rightarrow> ('a \<Rightarrow> error + 'b) \<Rightarrow> error + 'b" where
  "and_then m f = (case m of Inl e \<Rightarrow> Inl e | Inr x \<Rightarrow> f x)"

definition py_range :: "int \<Rightarrow> int list" where
  \<comment> \<open>\<^verbatim>\<open>range(n)\<close>: empty when \<open>n \<le> 0\<close>.\<close>
  "py_range n = map int [0..<nat n]"

section \<open>Python floats and mixed arithmetic\<close>

text \<open>
  A Python float is an IEEE 754 binary64 value.  A finite one is the rational number it
  denotes; \<open>fl\<close> rounds a rational to the nearest binary64 value (ties to the even
  significand, gradual underflow), and \<open>to_float\<close> adds the overflow to an infinity.
  The sign of zero is not kept: nothing the script computes depends on it.
\<close>

datatype pyfloat = Finite rat | PosInf | NegInf | NaN

definition round_half_even :: "rat \<Rightarrow> int" where
  "round_half_even x =
     (let f = \<lfloor>x\<rfloor>; r = x - of_int f
      in if r < 1 / 2 then f else if 1 / 2 < r then f + 1 else if even f then f else f + 1)"

definition ilog2 :: "rat \<Rightarrow> int" where
  \<comment> \<open>\<open>\<lfloor>log\<^sub>2 \<bar>x\<bar>\<rfloor>\<close> for \<open>x \<noteq> 0\<close>\<close>
  "ilog2 x =
     (case quotient_of \<bar>x\<bar> of (p, q) \<Rightarrow>
        let k = bitlen p - bitlen q in if 2 powi k \<le> \<bar>x\<bar> then k else k - 1)"

definition fl :: "rat \<Rightarrow> rat" where
  "fl x =
     (if x = 0 then 0
      else let e = max (ilog2 x - 52) (- 1074)
           in of_int (round_half_even (x / 2 powi e)) * 2 powi e)"

definition to_float :: "rat \<Rightarrow> pyfloat" where
  "to_float x =
     (let r = fl x
      in if 2 ^ 1024 \<le> r then PosInf else if r \<le> - (2 ^ 1024) then NegInf else Finite r)"

definition float_of_int :: "int \<Rightarrow> error + pyfloat" where
  \<comment> \<open>the conversion of an \<^verbatim>\<open>int\<close> operand; too large an integer raises\<close>
  "float_of_int n =
     (case to_float (of_int n) of Finite r \<Rightarrow> Inr (Finite r) | _ \<Rightarrow> Inl OverflowError)"

definition int_truediv :: "int \<Rightarrow> int \<Rightarrow> error + pyfloat" where
  \<comment> \<open>\<^verbatim>\<open>a / b\<close> on two ints: the exact quotient, rounded once\<close>
  "int_truediv a b =
     (if b = 0 then Inl ZeroDivisionError
      else case to_float (of_int a / of_int b) of
             Finite r \<Rightarrow> Inr (Finite r) | _ \<Rightarrow> Inl OverflowError)"

fun float_neg :: "pyfloat \<Rightarrow> pyfloat" where
  "float_neg (Finite a) = Finite (- a)"
| "float_neg PosInf = NegInf"
| "float_neg NegInf = PosInf"
| "float_neg NaN = NaN"

fun float_mul :: "pyfloat \<Rightarrow> pyfloat \<Rightarrow> pyfloat" where
  "float_mul (Finite a) (Finite b) = to_float (a * b)"
| "float_mul NaN _ = NaN"
| "float_mul _ NaN = NaN"
| "float_mul (Finite a) y = (if a = 0 then NaN else if 0 < a then y else float_neg y)"
| "float_mul x (Finite b) = (if b = 0 then NaN else if 0 < b then x else float_neg x)"
| "float_mul x y = (if x = y then PosInf else NegInf)"

fun float_add :: "pyfloat \<Rightarrow> pyfloat \<Rightarrow> pyfloat" where
  "float_add (Finite a) (Finite b) = to_float (a + b)"
| "float_add NaN _ = NaN"
| "float_add _ NaN = NaN"
| "float_add (Finite a) y = y"
| "float_add x (Finite b) = x"
| "float_add x y = (if x = y then x else NaN)"

fun float_div :: "pyfloat \<Rightarrow> pyfloat \<Rightarrow> error + pyfloat" where
  "float_div x (Finite b) =
     (if b = 0 then Inl ZeroDivisionError
      else case x of
             Finite a \<Rightarrow> Inr (to_float (a / b))
           | NaN \<Rightarrow> Inr NaN
           | _ \<Rightarrow> Inr (if 0 < b then x else float_neg x))"
| "float_div NaN _ = Inr NaN"
| "float_div _ NaN = Inr NaN"
| "float_div (Finite a) _ = Inr (Finite 0)"
| "float_div _ _ = Inr NaN"

text \<open>A number is an \<^verbatim>\<open>int\<close> or a \<^verbatim>\<open>float\<close>; an operator with a float operand converts the other.\<close>

datatype pynum = PyInt int | PyFloat pyfloat

fun as_float :: "pynum \<Rightarrow> error + pyfloat" where
  "as_float (PyInt n) = float_of_int n"
| "as_float (PyFloat x) = Inr x"

fun py_mul :: "pynum \<Rightarrow> pynum \<Rightarrow> error + pynum" where
  "py_mul (PyInt a) (PyInt b) = Inr (PyInt (a * b))"
| "py_mul x y =
     and_then (as_float x) (\<lambda>a. and_then (as_float y) (\<lambda>b. Inr (PyFloat (float_mul a b))))"

fun py_add :: "pynum \<Rightarrow> pynum \<Rightarrow> error + pynum" where
  "py_add (PyInt a) (PyInt b) = Inr (PyInt (a + b))"
| "py_add x y =
     and_then (as_float x) (\<lambda>a. and_then (as_float y) (\<lambda>b. Inr (PyFloat (float_add a b))))"

fun py_truediv :: "pynum \<Rightarrow> pynum \<Rightarrow> error + pynum" where
  "py_truediv (PyInt a) (PyInt b) = and_then (int_truediv a b) (\<lambda>r. Inr (PyFloat r))"
| "py_truediv x y =
     and_then (as_float x) (\<lambda>a. and_then (as_float y) (\<lambda>b.
       and_then (float_div a b) (\<lambda>r. Inr (PyFloat r))))"

definition truncate :: "rat \<Rightarrow> int" where
  \<comment> \<open>towards zero\<close>
  "truncate q = (if 0 \<le> q then \<lfloor>q\<rfloor> else \<lceil>q\<rceil>)"

fun py_int :: "pynum \<Rightarrow> error + int" where
  "py_int (PyInt n) = Inr n"
| "py_int (PyFloat (Finite q)) = Inr (truncate q)"
| "py_int (PyFloat NaN) = Inl ValueError"
| "py_int (PyFloat _) = Inl OverflowError"

definition py_bytes :: "int list \<Rightarrow> error + bytes" where
  \<comment> \<open>\<^verbatim>\<open>bytes(xs)\<close> on a list of ints\<close>
  "py_bytes xs =
     (if list_all (\<lambda>x. 0 \<le> x \<and> x < 256) xs then Inr (map word_of_int xs)
      else Inl ValueError)"

section \<open>\<^verbatim>\<open>struct.pack\<close> with a byte-order prefix\<close>

text \<open>
  With the prefix \<^verbatim>\<open><\<close> or \<^verbatim>\<open>!\<close> the codes have their standard sizes and no padding:
  \<^verbatim>\<open>B\<close> is one unsigned byte, \<^verbatim>\<open>H\<close> two, \<^verbatim>\<open>L\<close> four, \<^verbatim>\<open>4s\<close> a byte string cut or
  zero-padded to four bytes.  An integer outside the range of its code raises
  \<^verbatim>\<open>struct.error\<close>; nothing is ever reduced modulo the field width.
\<close>

datatype byteorder = LittleEndian | Network

datatype fmt_arg = Fmt_B int | Fmt_H int | Fmt_L int | Fmt_4s bytes

definition le_bytes :: "nat \<Rightarrow> int \<Rightarrow> bytes" where
  "le_bytes n x = map (\<lambda>i. word_of_int (x div 256 ^ i)) [0..<n]"

definition pack_uint :: "byteorder \<Rightarrow> nat \<Rightarrow> int \<Rightarrow> error + bytes" where
  "pack_uint bo n x =
     (if 0 \<le> x \<and> x < 256 ^ n
      then Inr (case bo of LittleEndian \<Rightarrow> le_bytes n x | Network \<Rightarrow> rev (le_bytes n x))
      else Inl StructError)"

fun pack_arg :: "byteorder \<Rightarrow> fmt_arg \<Rightarrow> error + bytes" where
  "pack_arg bo (Fmt_B x) = pack_uint bo 1 x"
| "pack_arg bo (Fmt_H x) = pack_uint bo 2 x"
| "pack_arg bo (Fmt_L x) = pack_uint bo 4 x"
| "pack_arg bo (Fmt_4s s) = Inr (take 4 (s @ replicate 4 0))"

fun struct_pack :: "byteorder \<Rightarrow> fmt_arg list \<Rightarrow> error + bytes" where
  "struct_pack bo [] = Inr []"
| "struct_pack bo (a # as) =
     and_then (pack_arg bo a) (\<lambda>x. and_then (struct_pack bo as) (\<lambda>rest. Inr (x @ rest)))"

text \<open>Reading an unsigned field back, as a capture reader does.\<close>

definition le_int :: "bytes \<Rightarrow> int" where
  "le_int bs = foldr (\<lambda>b acc. uint b + 256 * acc) bs 0"

definition be_int :: "bytes \<Rightarrow> int" where
  "be_int bs = le_int (rev bs)"

definition field :: "nat \<Rightarrow> nat \<Rightarrow> bytes \<Rightarrow> bytes" where
  \<comment> \<open>the \<open>n\<close> bytes at offset \<open>off\<close>\<close>
  "field off n bs = take n (drop off bs)"

section \<open>The header builders\<close>

definition create_pcap_header :: "error + bytes" where
  "create_pcap_header =
     struct_pack LittleEndian
       [Fmt_L 0xa1b2c3d4, Fmt_H 2, Fmt_H 4, Fmt_L 0, Fmt_L 0, Fmt_L 65535, Fmt_L 1]"

definition create_ethernet_header :: bytes where
  "create_ethernet_header =
     [0x00, 0x01, 0x02, 0x03, 0x04, 0x05] @ [0x00, 0x0a, 0x0b, 0x0c, 0x0d, 0x0e] @ [0x08, 0x00]"

definition create_ip_header :: "int \<Rightarrow> error + bytes" where
  "create_ip_header payload_length =
     (let total_length = 20 + 8 + 12 + payload_length
      in struct_pack Network
           [Fmt_B 0x45, Fmt_B 0, Fmt_H total_length, Fmt_H 0x1234, Fmt_H 0, Fmt_B 64,
            Fmt_B 17, Fmt_H 0, Fmt_4s [0x7f, 0x00, 0x00, 0x01], Fmt_4s [0x7f, 0x00, 0x00, 0x01]])"

definition create_udp_header :: "int \<Rightarrow> error + bytes" where
  "create_udp_header payload_length =
     (let udp_length = 8 + 12 + payload_length
      in struct_pack Network [Fmt_H 12345, Fmt_H 6000, Fmt_H udp_length, Fmt_H 0])"

definition default_ssrc :: int where
  "default_ssrc = 0x12345678"

definition create_rtp_header :: "int \<Rightarrow> int \<Rightarrow> int \<Rightarrow> error + bytes" where
  "create_rtp_header seq_num timestamp ssrc =
     struct_pack Network [Fmt_B 0x80, Fmt_B 8, Fmt_H seq_num, Fmt_L timestamp, Fmt_L ssrc]"

definition create_pcap_record :: "bytes \<Rightarrow> int \<Rightarrow> int \<Rightarrow> error + bytes" where
  "create_pcap_record packet_data timestamp_sec timestamp_usec =
     and_then
       (struct_pack LittleEndian
          [Fmt_L timestamp_sec, Fmt_L timestamp_usec,
           Fmt_L (int (length packet_data)), Fmt_L (int (length packet_data))])
       (\<lambda>hdr. Inr (hdr @ packet_data))"

section \<open>The payload synthesizer\<close>

definition samples_per_packet_of :: "pynum \<Rightarrow> error + int" where
  \<comment> \<open>\<^verbatim>\<open>int(8000 * duration_ms / 1000)\<close>\<close>
  "samples_per_packet_of duration_ms =
     and_then (py_mul (PyInt 8000) duration_ms) (\<lambda>a.
     and_then (py_truediv a (PyInt 1000)) py_int)"

definition sample_at :: "int \<Rightarrow> error + int" where
  \<comment> \<open>\<^verbatim>\<open>int(127 * (1 + 0.8 * ((i % 18) - 9) / 9))\<close>\<close>
  "sample_at i =
     and_then (py_mul (PyFloat (to_float (8 / 10))) (PyInt ((i mod 18) - 9))) (\<lambda>a.
     and_then (py_truediv a (PyInt 9)) (\<lambda>b.
     and_then (py_add (PyInt 1) b) (\<lambda>c.
     and_then (py_mul (PyInt 127) c) py_int)))"

fun audio_loop :: "int list \<Rightarrow> int list \<Rightarrow> error + int list" where
  "audio_loop [] audio_pattern = Inr audio_pattern"
| "audio_loop (i # rest) audio_pattern =
     and_then (sample_at i) (\<lambda>sample.
       let a_law_sample = max 0 (min 255 sample)
       in audio_loop rest (audio_pattern @ [a_law_sample]))"

text \<open>
  The list \<^verbatim>\<open>audio_pattern\<close> and the byte string built from it are lists without a bound
  on their length: an allocation that fails (\<^verbatim>\<open>MemoryError\<close>) is not an outcome of the
  model.  The driver only ever asks for 160 samples.
\<close>

definition generate_g711a_audio :: "pynum \<Rightarrow> error + bytes" where
  "generate_g711a_audio duration_ms =
     and_then (samples_per_packet_of duration_ms) (\<lambda>samples_per_packet.
     and_then (audio_loop (py_range samples_per_packet) []) py_bytes)"

text \<open>
  The value the loop body computes at position \<open>i\<close>, with the five roundings of the float
  expression written out, and the clamped value that is appended.
\<close>

definition sample_value :: "int \<Rightarrow> int" where
  "sample_value i =
     truncate (fl (127 * fl (1 + fl (fl (fl (8 / 10) * of_int ((i mod 18) - 9)) / 9))))"

definition a_law_sample_at :: "int \<Rightarrow> int" where
  "a_law_sample_at i = max 0 (min 255 (sample_value i))"

section \<open>The driver\<close>

text \<open>
  \<open>main\<close> is a function of the wall clock, \<^verbatim>\<open>int(time.time())\<close>, and returns the byte
  strings handed to \<^verbatim>\<open>f.write\<close>, in order: the capture header, then one record per
  iteration.  Opening the file, the console messages and the optional \<^verbatim>\<open>tcpdump\<close>
  read-back are outside the model.
\<close>

fun main_loop :: "int \<Rightarrow> int list \<Rightarrow> int \<Rightarrow> bytes list \<Rightarrow> error + int \<times> bytes list" where
  "main_loop base_timestamp [] rtp_timestamp f = Inr (rtp_timestamp, f)"
| "main_loop base_timestamp (seq_num # rest) rtp_timestamp f =
     and_then (generate_g711a_audio (PyInt 20)) (\<lambda>audio_payload.
     let ethernet = create_ethernet_header in
     and_then (create_ip_header (int (length audio_payload))) (\<lambda>ip.
     and_then (create_udp_header (int (length audio_payload))) (\<lambda>udp.
     and_then (create_rtp_header (seq_num + 1000) rtp_timestamp default_ssrc) (\<lambda>rtp.
     let packet = ethernet @ ip @ udp @ rtp @ audio_payload;
         packet_time_usec = seq_num * 20000;
         timestamp_sec = base_timestamp + packet_time_usec div 1000000;
         timestamp_usec = packet_time_usec mod 1000000
     in and_then (create_pcap_record packet timestamp_sec timestamp_usec) (\<lambda>pcap_record.
          main_loop base_timestamp rest (rtp_timestamp + 160) (f @ [pcap_record]))))))"

definition main :: "int \<Rightarrow> error + bytes list" where
  "main base_timestamp =
     and_then create_pcap_header (\<lambda>pcap_header.
     and_then (main_loop base_timestamp (py_range 50) 0 [pcap_header]) (\<lambda>(rtp_timestamp, f).
       Inr f))"

section \<open>Reading a capture\<close>

text \<open>
  The fields a capture reader finds in one record: the 16-byte record header
  (little-endian), then the frame: Ethernet (14 bytes), IPv4 (20), UDP (8), RTP (12) and
  the payload, with the fields of the frame in network byte order.
\<close>

definition rec_ts_sec :: "bytes \<Rightarrow> int" where
  "rec_ts_sec r = le_int (field 0 4 r)"

definition rec_ts_usec :: "bytes \<Rightarrow> int" where
  "rec_ts_usec r = le_int (field 4 4 r)"

definition rec_incl_len :: "bytes \<Rightarrow> int" where
  "rec_incl_len r = le_int (field 8 4 r)"

definition rec_orig_len :: "bytes \<Rightarrow> int" where
  "rec_orig_len r = le_int (field 12 4 r)"

definition rec_frame :: "bytes \<Rightarrow> bytes" where
  "rec_frame r = drop 16 r"

definition ip_total_length :: "bytes \<Rightarrow> int" where
  "ip_total_length frame = be_int (field (14 + 2) 2 frame)"

definition udp_length :: "bytes \<Rightarrow> int" where
  "udp_length frame = be_int (field (14 + 20 + 4) 2 frame)"

definition rtp_seq_num :: "bytes \<Rightarrow> int" where
  "rtp_seq_num frame = be_int (field (14 + 20 + 8 + 2) 2 frame)"

definition rtp_timestamp_of :: "bytes \<Rightarrow> int" where
  "rtp_timestamp_of frame = be_int (field (14 + 20 + 8 + 4) 4 frame)"

definition rtp_payload :: "bytes \<Rightarrow> bytes" where
  "rtp_payload frame = drop (14 + 20 + 8 + 12) frame"

definition records :: "bytes list \<Rightarrow> bytes list" where
  \<comment> \<open>what was written after the capture header\<close>
  "records f = tl f"

section \<open>What a run writes, in closed form\<close>

text \<open>
  The 160-byte payload of a 20 ms packet, the frame and the record of iteration \<open>i\<close>.
  These are not functions of the script: the facts below show that the driver writes
  exactly these byte strings.
\<close>

definition pcap_header_bytes :: bytes where
  "pcap_header_bytes =
     [0xd4, 0xc3, 0xb2, 0xa1, 2, 0, 4, 0, 0, 0, 0, 0, 0, 0, 0, 0, 0xff, 0xff, 0, 0, 1, 0, 0, 0]"

definition payload20 :: bytes where
  "payload20 = map (\<lambda>i. word_of_int (a_law_sample_at i)) (py_range 160)"

definition frame_of :: "nat \<Rightarrow> bytes" where
  "frame_of i =
     create_ethernet_header @
     ([0x45, 0] @ rev (le_bytes 2 200) @
        [0x12, 0x34, 0, 0, 64, 17, 0, 0, 0x7f, 0, 0, 1, 0x7f, 0, 0, 1]) @
     ([0x30, 0x39, 0x17, 0x70] @ rev (le_bytes 2 180) @ [0, 0]) @
     ([0x80, 8] @ rev (le_bytes 2 (int i + 1000)) @ rev (le_bytes 4 (160 * int i)) @
        rev (le_bytes 4 default_ssrc)) @
     payload20"

definition record_of :: "int \<Rightarrow> nat \<Rightarrow> bytes" where
  "record_of base_timestamp i =
     (le_bytes 4 base_timestamp @ le_bytes 4 (int i * 20000) @ le_bytes 4 214 @
      le_bytes 4 214) @ frame_of i"

text \<open>
  A record's capture time in microseconds, the span between the first and the last
  record, and a reader that splits the bytes after the capture header into records by
  their captured-length fields.
\<close>

definition capture_time_usec :: "bytes \<Rightarrow> int" where
  "capture_time_usec r = rec_ts_sec r * 1000000 + rec_ts_usec r"

definition capture_span_usec :: "bytes list \<Rightarrow> int" where
  "capture_span_usec f = capture_time_usec (last (records f)) - capture_time_usec (hd (records f))"

function read_records :: "bytes \<Rightarrow> bytes list option" where
  "read_records bs =
     (if bs = [] then Some []
      else if length bs < 16 then None
      else let n = nat (rec_incl_len bs)
           in if length bs < 16 + n then None
              else map_option ((#) (take (16 + n) bs)) (read_records (drop (16 + n) bs)))"
  by pat_completeness auto
termination
  by (relation "measure length") auto

declare read_records.simps [simp del]

section \<open>Facts about packing\<close>

lemma and_then_Inr [simp]: "and_then (Inr x) f = f x"
  by (simp add: and_then_def)

lemma and_then_Inl [simp]: "and_then (Inl e) f = Inl e"
  by (simp add: and_then_def)

lemma le_bytes_Suc: "le_bytes (Suc n) x = word_of_int x # le_bytes n (x div 256)"
proof -
  have "[0..<Suc n] = 0 # map Suc [0..<n]"
    by (simp add: upt_conv_Cons map_Suc_upt del: upt_Suc)
  then show ?thesis
    by (simp add: le_bytes_def comp_def zdiv_zmult2_eq del: upt_Suc)
qed

lemma length_le_bytes [simp]: "length (le_bytes n x) = n"
  by (simp add: le_bytes_def)

lemma le_int_le_bytes: "le_int (le_bytes n x) = x mod 256 ^ n"
proof (induction n arbitrary: x)
  case 0
  show ?case by (simp add: le_bytes_def le_int_def)
next
  case (Suc n)
  have "le_int (le_bytes (Suc n) x) = x mod 256 + 256 * le_int (le_bytes n (x div 256))"
    by (simp add: le_bytes_Suc le_int_def uint_word_of_int take_bit_eq_mod)
  also have "\<dots> = x mod 256 + 256 * (x div 256 mod 256 ^ n)"
    by (simp add: Suc.IH)
  also have "\<dots> = x mod 256 ^ Suc n"
    by (simp add: zmod_zmult2_eq)
  finally show ?case .
qed

lemma le_int_le_bytes_id: "0 \<le> x \<Longrightarrow> x < 256 ^ n \<Longrightarrow> le_int (le_bytes n x) = x"
  by (simp add: le_int_le_bytes)

lemma be_int_rev_le_bytes: "0 \<le> x \<Longrightarrow> x < 256 ^ n \<Longrightarrow> be_int (rev (le_bytes n x)) = x"
  by (simp add: be_int_def le_int_le_bytes)

lemma le_bytes_0: "le_bytes 0 x = []"
  by (simp add: le_bytes_def)

lemma le_bytes_Suc_0: "le_bytes (Suc 0) x = [word_of_int x]"
  by (simp add: le_bytes_Suc le_bytes_0)

lemma le_bytes_2: "le_bytes 2 x = [word_of_int x, word_of_int (x div 256)]"
proof -
  have "le_bytes 2 x = le_bytes (Suc (Suc 0)) x"
    by (simp add: eval_nat_numeral)
  then show ?thesis
    by (simp add: le_bytes_Suc le_bytes_0)
qed

lemma le_bytes_4:
  "le_bytes 4 x =
     [word_of_int x, word_of_int (x div 256), word_of_int (x div 65536),
      word_of_int (x div 16777216)]"
proof -
  have "le_bytes 4 x = le_bytes (Suc (Suc (Suc (Suc 0)))) x"
    by (simp add: eval_nat_numeral)
  moreover have "x div 256 div 256 = x div 65536"
    by (simp add: zdiv_zmult2_eq [symmetric])
  moreover have "x div 65536 div 256 = x div 16777216"
    by (simp add: zdiv_zmult2_eq [symmetric])
  ultimately show ?thesis
    by (simp add: le_bytes_Suc le_bytes_0)
qed

lemma pack_uint_Network:
  "0 \<le> x \<Longrightarrow> x < 256 ^ n \<Longrightarrow> pack_uint Network n x = Inr (rev (le_bytes n x))"
  by (simp add: pack_uint_def)

lemma pack_uint_LittleEndian:
  "0 \<le> x \<Longrightarrow> x < 256 ^ n \<Longrightarrow> pack_uint LittleEndian n x = Inr (le_bytes n x)"
  by (simp add: pack_uint_def)

lemma pack_uint_out_of_range:
  "x < 0 \<or> 256 ^ n \<le> x \<Longrightarrow> pack_uint bo n x = Inl StructError"
  by (auto simp add: pack_uint_def)

section \<open>Facts about rounding\<close>

lemma quotient_of_abs:
  assumes "x \<noteq> 0" "quotient_of \<bar>x\<bar> = (p, q)"
  shows "0 < p" "0 < q" "\<bar>x\<bar> = of_int p / of_int q"
proof -
  show q: "0 < q"
    using assms(2) by (rule quotient_of_denom_pos)
  show e: "\<bar>x\<bar> = of_int p / of_int q"
    using assms(2) by (rule quotient_of_div)
  have "0 < \<bar>x\<bar>"
    using assms(1) by simp
  then have "0 < (of_int p :: rat) / of_int q"
    by (simp only: e)
  then show "0 < p"
    using q by (simp add: zero_less_divide_iff)
qed

lemma bitlen_powi:
  assumes "0 < p"
  shows "(2::rat) powi (bitlen p - 1) \<le> of_int p" "(of_int p :: rat) < 2 powi (bitlen p)"
proof -
  have b: "1 \<le> bitlen p"
    using assms by (simp add: bitlen_alt_def)
  have "2 ^ nat (bitlen p - 1) \<le> p" "p < 2 ^ nat (bitlen p)"
    using bitlen_bounds [OF assms] by simp_all
  then have "(of_int (2 ^ nat (bitlen p - 1)) :: rat) \<le> of_int p"
    "(of_int p :: rat) < of_int (2 ^ nat (bitlen p))"
    unfolding of_int_le_iff of_int_less_iff by simp_all
  then show "(2::rat) powi (bitlen p - 1) \<le> of_int p" "(of_int p :: rat) < 2 powi (bitlen p)"
    using b by (simp_all add: power_int_def)
qed

lemma ilog2_bounds:
  assumes "x \<noteq> 0"
  shows "2 powi (ilog2 x) \<le> \<bar>x\<bar>" "\<bar>x\<bar> < 2 powi (ilog2 x + 1)"
proof -
  obtain p q where pq: "quotient_of \<bar>x\<bar> = (p, q)"
    by (cases "quotient_of \<bar>x\<bar>")
  note f = quotient_of_abs [OF assms pq]
  define k where "k = bitlen p - bitlen q"
  have il: "ilog2 x = (if 2 powi k \<le> \<bar>x\<bar> then k else k - 1)"
    by (simp add: ilog2_def pq k_def Let_def)
  have qpos: "(0::rat) < of_int q"
    using f(2) by simp
  have lo: "(2::rat) powi (k - 1) \<le> \<bar>x\<bar>"
  proof -
    have "(2::rat) powi (k - 1) = 2 powi (bitlen p - 1) / 2 powi (bitlen q)"
      by (simp add: k_def power_int_diff [symmetric] algebra_simps)
    also have "\<dots> \<le> of_int p / of_int q"
      using bitlen_powi(1) [OF f(1)] bitlen_powi(2) [OF f(2)] qpos f(1)
      by (intro frac_le) simp_all
    finally show ?thesis
      by (simp only: f(3))
  qed
  have hi: "\<bar>x\<bar> < (2::rat) powi (k + 1)"
  proof -
    have "of_int p / of_int q < (2::rat) powi (bitlen p) / 2 powi (bitlen q - 1)"
      using bitlen_powi(2) [OF f(1)] bitlen_powi(1) [OF f(2)] f(1)
      by (intro frac_less) simp_all
    also have "\<dots> = 2 powi (k + 1)"
      by (simp add: k_def power_int_diff [symmetric] algebra_simps)
    finally show ?thesis
      by (simp only: f(3))
  qed
  show "2 powi (ilog2 x) \<le> \<bar>x\<bar>"
    using lo by (simp add: il)
  show "\<bar>x\<bar> < 2 powi (ilog2 x + 1)"
    using hi by (simp add: il not_le)
qed


lemma round_half_even_error: "\<bar>of_int (round_half_even y) - y\<bar> \<le> 1 / 2"
proof -
  have "of_int \<lfloor>y\<rfloor> \<le> y" "y < of_int \<lfloor>y\<rfloor> + 1"
    by linarith+
  then show ?thesis
    by (auto simp add: round_half_even_def Let_def abs_le_iff)
qed

lemma fl_error:
  assumes "x \<noteq> 0"
  shows "\<bar>fl x - x\<bar> \<le> 2 powi (max (ilog2 x - 52) (- 1074)) / 2"
proof -
  define e where "e = max (ilog2 x - 52) (- 1074)"
  define u :: rat where "u = 2 powi e"
  have u: "0 < u"
    by (simp add: u_def)
  have "fl x - x = (of_int (round_half_even (x / u)) - x / u) * u"
    using assms u by (simp add: fl_def Let_def e_def u_def algebra_simps)
  then have "\<bar>fl x - x\<bar> = \<bar>of_int (round_half_even (x / u)) - x / u\<bar> * u"
    using u by (simp add: abs_mult)
  also have "\<dots> \<le> 1 / 2 * u"
    using u round_half_even_error [of "x / u"] by (intro mult_right_mono) simp_all
  finally show ?thesis
    by (simp add: u_def e_def)
qed

lemma fl_bound: "\<bar>fl x\<bar> \<le> 2 * \<bar>x\<bar> + 1"
proof (cases "x = 0")
  case True
  then show ?thesis by (simp add: fl_def)
next
  case False
  define e where "e = max (ilog2 x - 52) (- 1074)"
  have "(2::rat) powi e \<le> \<bar>x\<bar> + 1"
  proof (cases "ilog2 x - 52 \<le> - 1074")
    case True
    then have "e \<le> 0"
      by (simp add: e_def)
    then have "(2::rat) powi e \<le> 2 powi 0"
      by (rule power_int_increasing) simp
    then show ?thesis
      by simp
  next
    case False
    then have "e \<le> ilog2 x"
      by (simp add: e_def)
    then have "(2::rat) powi e \<le> 2 powi (ilog2 x)"
      by (rule power_int_increasing) simp
    also have "\<dots> \<le> \<bar>x\<bar>"
      using \<open>x \<noteq> 0\<close> by (rule ilog2_bounds)
    finally show ?thesis
      by simp
  qed
  moreover have "\<bar>fl x - x\<bar> \<le> 2 powi e / 2"
    using fl_error [OF \<open>x \<noteq> 0\<close>] by (simp add: e_def)
  ultimately show ?thesis
    by linarith
qed

lemma to_float_Finite:
  assumes "\<bar>x\<bar> < 2 ^ 1000"
  shows "to_float x = Finite (fl x)"
proof -
  have "\<bar>fl x\<bar> \<le> 2 * \<bar>x\<bar> + 1"
    by (rule fl_bound)
  also have "\<dots> < 2 * 2 ^ 1000 + 1"
    using assms by simp
  also have "\<dots> < (2::rat) ^ 1024"
    by simp
  finally have "\<bar>fl x\<bar> < 2 ^ 1024" .
  then show ?thesis
    by (simp add: to_float_def Let_def abs_less_iff not_le)
qed


section \<open>The media-transport header builder\<close>

lemma create_rtp_header_in_range:
  assumes "0 \<le> seq_num" "seq_num < 65536" "0 \<le> timestamp" "timestamp < 4294967296"
    "0 \<le> ssrc" "ssrc < 4294967296"
  shows "create_rtp_header seq_num timestamp ssrc =
    Inr ([0x80, 8] @ rev (le_bytes 2 seq_num) @ rev (le_bytes 4 timestamp) @
         rev (le_bytes 4 ssrc))"
  using assms by (simp add: create_rtp_header_def pack_uint_Network le_bytes_Suc_0)

lemma create_rtp_header_seq_out_of_range:
  assumes "seq_num < 0 \<or> 65536 \<le> seq_num"
  shows "create_rtp_header seq_num timestamp ssrc = Inl StructError"
  using assms
  by (simp add: create_rtp_header_def pack_uint_out_of_range pack_uint_Network le_bytes_Suc_0)

text \<open>
  Claim C8, as amended.  The claim says that the builder succeeds on every integer
  sequence number and stores it modulo \<open>2\<^sup>1\<^sup>6\<close>.  \<^verbatim>\<open>struct.pack\<close> does not wrap: for a
  sequence number in \<open>[0, 65535]\<close> (and a timestamp and an SSRC that fit their 32-bit
  fields) the builder returns 12 bytes whose bytes 2 and 3 hold the sequence number in
  network byte order, and for every sequence number outside \<open>[0, 65535]\<close> it raises
  \<^verbatim>\<open>struct.error\<close>.
\<close>

theorem create_rtp_header_seq_num_field:
  "(0 \<le> seq_num \<and> seq_num < 65536 \<and> 0 \<le> timestamp \<and> timestamp < 4294967296 \<and>
    0 \<le> ssrc \<and> ssrc < 4294967296 \<longrightarrow>
      (\<exists>h. create_rtp_header seq_num timestamp ssrc = Inr h \<and> length h = 12 \<and>
           be_int (field 2 2 h) = seq_num)) \<and>
   (seq_num < 0 \<or> 65536 \<le> seq_num \<longrightarrow>
      create_rtp_header seq_num timestamp ssrc = Inl StructError)"
proof (intro conjI impI)
  assume r: "0 \<le> seq_num \<and> seq_num < 65536 \<and> 0 \<le> timestamp \<and> timestamp < 4294967296 \<and>
    0 \<le> ssrc \<and> ssrc < 4294967296"
  let ?h = "[0x80, 8] @ rev (le_bytes 2 seq_num) @ rev (le_bytes 4 timestamp) @
    rev (le_bytes 4 ssrc)"
  have "create_rtp_header seq_num timestamp ssrc = Inr ?h"
    using r by (simp add: create_rtp_header_in_range)
  moreover have "length ?h = 12"
    by simp
  moreover have "be_int (field 2 2 ?h) = seq_num"
    using r by (simp add: field_def be_int_rev_le_bytes)
  ultimately show "\<exists>h. create_rtp_header seq_num timestamp ssrc = Inr h \<and> length h = 12 \<and>
      be_int (field 2 2 h) = seq_num"
    by blast
next
  assume "seq_num < 0 \<or> 65536 \<le> seq_num"
  then show "create_rtp_header seq_num timestamp ssrc = Inl StructError"
    by (rule create_rtp_header_seq_out_of_range)
qed

theorem create_rtp_header_seq_num_field_witness:
  "(0::int) \<le> 1000 \<and> (1000::int) < 65536 \<and>
   (\<exists>h. create_rtp_header 1000 0 default_ssrc = Inr h \<and> length h = 12 \<and>
        be_int (field 2 2 h) = 1000) \<and>
   create_rtp_header 70000 0 default_ssrc = Inl StructError"
  using create_rtp_header_seq_num_field [of 1000 0 default_ssrc]
    create_rtp_header_seq_num_field [of 70000 0 default_ssrc]
  by (simp add: default_ssrc_def)

text \<open>The claim as stated fails at the first value beyond the field: 65536 is refused, not stored as 0.\<close>

theorem create_rtp_header_does_not_wrap:
  "create_rtp_header 65536 0 default_ssrc = Inl StructError"
  by (simp add: create_rtp_header_def pack_uint_def le_bytes_Suc_0 default_ssrc_def)

section \<open>The payload synthesizer: exact integers, no overflow, closed form\<close>

lemma round_half_even_of_int: "round_half_even (of_int m) = m"
  by (simp add: round_half_even_def)

lemma truncate_of_int: "truncate (of_int n) = n"
  by (simp add: truncate_def)

lemma fl_of_int:
  assumes "\<bar>n\<bar> < 2 ^ 53"
  shows "fl (of_int n) = of_int n"
proof (cases "n = 0")
  case True
  then show ?thesis by (simp add: fl_def)
next
  case False
  let ?x = "of_int n :: rat"
  define e where "e = max (ilog2 ?x - 52) (- 1074)"
  have "(of_int \<bar>n\<bar> :: rat) < of_int (2 ^ 53)"
    using assms unfolding of_int_less_iff .
  then have "\<bar>?x\<bar> < 2 powi 53"
    by simp
  moreover have "2 powi (ilog2 ?x) \<le> \<bar>?x\<bar>"
    using False by (intro ilog2_bounds) simp
  ultimately have "(2::rat) powi (ilog2 ?x) < 2 powi 53"
    by linarith
  then have "ilog2 ?x < 53"
    by (rule power_int_le_imp_less_exp [rotated]) simp_all
  then have "e \<le> 0"
    by (simp add: e_def)
  then obtain k where k: "e = - int k"
    by (metis nat_0_le neg_le_0_iff_le minus_minus)
  have p: "(2::rat) powi e = 1 / 2 ^ k"
    by (simp add: k power_int_minus_divide)
  have "?x / 2 powi e = of_int (n * 2 ^ k)"
    by (simp add: p)
  then have "round_half_even (?x / 2 powi e) = n * 2 ^ k"
    by (simp only: round_half_even_of_int)
  then have "of_int (round_half_even (?x / 2 powi e)) * (2::rat) powi e = ?x"
    by (simp add: p)
  then show ?thesis
    using False by (simp add: fl_def Let_def e_def)
qed

lemma to_float_of_int:
  assumes "\<bar>n\<bar> < 2 ^ 53"
  shows "to_float (of_int n) = Finite (of_int n)"
proof -
  have "(of_int \<bar>n\<bar> :: rat) < of_int (2 ^ 53)"
    using assms unfolding of_int_less_iff .
  then have "\<bar>of_int n :: rat\<bar> < 2 ^ 1000"
    by simp
  then show ?thesis
    by (simp add: to_float_Finite fl_of_int [OF assms])
qed

lemma float_of_int_exact: "\<bar>n\<bar> < 2 ^ 53 \<Longrightarrow> float_of_int n = Inr (Finite (of_int n))"
  by (simp add: float_of_int_def to_float_of_int)

lemma samples_per_packet_of_int:
  assumes "\<bar>d\<bar> < 2 ^ 50"
  shows "samples_per_packet_of (PyInt d) = Inr (8 * d)"
proof -
  have "(of_int (8000 * d) :: rat) / of_int 1000 = of_int (8 * d)"
    by simp
  moreover have "\<bar>8 * d\<bar> < 2 ^ 53"
    using assms by simp
  then have "to_float (of_int (8 * d)) = Finite (of_int (8 * d))"
    by (rule to_float_of_int)
  ultimately have "int_truediv (8000 * d) 1000 = Inr (Finite (of_int (8 * d)))"
    by (simp add: int_truediv_def)
  then show ?thesis
    by (simp add: samples_per_packet_of_def truncate_of_int del: of_int_mult)
qed

lemma to_float_stage:
  assumes "\<bar>x\<bar> \<le> b" "b < 2 ^ 1000"
  shows "to_float x = Finite (fl x)" "\<bar>fl x\<bar> \<le> 2 * b + 1"
proof -
  show "to_float x = Finite (fl x)"
    using assms by (intro to_float_Finite) simp
  show "\<bar>fl x\<bar> \<le> 2 * b + 1"
    using fl_bound [of x] assms(1) by simp
qed

lemma sample_at_eq: "sample_at i = Inr (sample_value i)"
proof -
  define k where "k = (i mod 18) - 9"
  define c where "c = fl (8 / 10)"
  define s1 where "s1 = fl (c * of_int k)"
  define s2 where "s2 = fl (s1 / 9)"
  define s3 where "s3 = fl (1 + s2)"
  define s4 where "s4 = fl (127 * s3)"
  have k: "\<bar>k\<bar> \<le> 9"
    by (simp add: k_def abs_le_iff) 
  have fk: "float_of_int k = Inr (Finite (of_int k))"
    using k by (intro float_of_int_exact) simp
  have c: "to_float (8 / 10) = Finite c" "\<bar>c\<bar> \<le> 3"
    using to_float_stage [of "8 / 10" 1] by (simp_all add: c_def)
  have c': "to_float (4 / 5) = Finite c"
    using c(1) by simp
  have "(of_int \<bar>k\<bar> :: rat) \<le> of_int 9"
    using k unfolding of_int_le_iff .
  then have "\<bar>c\<bar> * \<bar>of_int k :: rat\<bar> \<le> 3 * 9"
    using c(2) by (intro mult_mono) simp_all
  then have "\<bar>c * of_int k\<bar> \<le> 27"
    by (simp add: abs_mult)
  from to_float_stage [OF this] have s1: "to_float (c * of_int k) = Finite s1" "\<bar>s1\<bar> \<le> 55"
    by (simp_all add: s1_def)
  have "\<bar>s1 / 9\<bar> \<le> 55"
    using s1(2) by simp
  from to_float_stage [OF this] have s2: "to_float (s1 / 9) = Finite s2" "\<bar>s2\<bar> \<le> 111"
    by (simp_all add: s2_def)
  have "\<bar>1 + s2\<bar> \<le> 112"
    using s2(2) by simp
  from to_float_stage [OF this] have s3: "to_float (1 + s2) = Finite s3" "\<bar>s3\<bar> \<le> 225"
    by (simp_all add: s3_def)
  have "\<bar>127 * s3\<bar> \<le> 127 * 225"
    using s3(2) by (simp add: abs_mult)
  from to_float_stage [OF this] have s4: "to_float (127 * s3) = Finite s4"
    by (simp_all add: s4_def)
  have f9: "float_of_int 9 = Inr (Finite 9)" "float_of_int 1 = Inr (Finite 1)"
    "float_of_int 127 = Inr (Finite 127)"
    using float_of_int_exact [of 9] float_of_int_exact [of 1] float_of_int_exact [of 127]
    by simp_all
  have "sample_at i = Inr (truncate s4)"
    by (simp add: sample_at_def k_def [symmetric] c' fk s1 f9 s2 s3 s4)
  then show ?thesis
    by (simp add: sample_value_def s4_def s3_def s2_def s1_def c_def k_def)
qed

lemma audio_loop_eq: "audio_loop xs audio_pattern = Inr (audio_pattern @ map a_law_sample_at xs)"
  by (induction xs arbitrary: audio_pattern) (simp_all add: sample_at_eq a_law_sample_at_def)


lemma py_bytes_a_law:
  "py_bytes (map a_law_sample_at xs) = Inr (map (\<lambda>i. word_of_int (a_law_sample_at i)) xs)"
proof -
  have "list_all (\<lambda>x. 0 \<le> x \<and> x < 256) (map a_law_sample_at xs)"
    by (simp add: list_all_iff a_law_sample_at_def min_less_iff_disj)
  then show ?thesis
    by (simp add: py_bytes_def comp_def)
qed

lemma generate_g711a_audio_eq:
  "generate_g711a_audio duration_ms =
     and_then (samples_per_packet_of duration_ms) (\<lambda>samples_per_packet.
       Inr (map (\<lambda>i. word_of_int (a_law_sample_at i)) (py_range samples_per_packet)))"
  by (simp add: generate_g711a_audio_def audio_loop_eq py_bytes_a_law)

lemma generate_g711a_audio_20:
  "generate_g711a_audio (PyInt 20) = Inr (map (\<lambda>i. word_of_int (a_law_sample_at i)) (py_range 160))"
  by (simp add: generate_g711a_audio_eq samples_per_packet_of_int)














section \<open>The driver writes the capture header and fifty records\<close>

lemma create_ip_header_in_range:
  assumes "0 \<le> n" "n < 65496"
  shows "create_ip_header n =
    Inr ([0x45, 0] @ rev (le_bytes 2 (40 + n)) @
         [0x12, 0x34, 0, 0, 64, 17, 0, 0, 0x7f, 0, 0, 1, 0x7f, 0, 0, 1])"
  using assms
  by (simp add: create_ip_header_def pack_uint_Network le_bytes_Suc_0 le_bytes_2 [of 4660]
      le_bytes_2 [of 0])

lemma create_udp_header_in_range:
  assumes "0 \<le> n" "n < 65516"
  shows "create_udp_header n = Inr ([0x30, 0x39, 0x17, 0x70] @ rev (le_bytes 2 (20 + n)) @ [0, 0])"
  using assms
  by (simp add: create_udp_header_def pack_uint_Network le_bytes_2 [of 12345]
      le_bytes_2 [of 6000] le_bytes_2 [of 0])

lemma create_pcap_record_in_range:
  assumes "0 \<le> timestamp_sec" "timestamp_sec < 4294967296"
    "0 \<le> timestamp_usec" "timestamp_usec < 4294967296" "length packet_data < 4294967296"
  shows "create_pcap_record packet_data timestamp_sec timestamp_usec =
    Inr ((le_bytes 4 timestamp_sec @ le_bytes 4 timestamp_usec @
          le_bytes 4 (int (length packet_data)) @ le_bytes 4 (int (length packet_data))) @
         packet_data)"
  using assms by (simp add: create_pcap_record_def pack_uint_LittleEndian)

lemma create_pcap_header_eq:
  "create_pcap_header =
     Inr [0xd4, 0xc3, 0xb2, 0xa1, 2, 0, 4, 0, 0, 0, 0, 0, 0, 0, 0, 0, 0xff, 0xff, 0, 0, 1, 0, 0, 0]"
  by (simp add: create_pcap_header_def pack_uint_def le_bytes_2 le_bytes_4)

lemma length_payload20: "length payload20 = 160"
  by (simp add: payload20_def py_range_def)

lemma generate_g711a_audio_payload20: "generate_g711a_audio (PyInt 20) = Inr payload20"
  by (simp add: generate_g711a_audio_20 payload20_def)

lemma length_create_ethernet_header: "length create_ethernet_header = 14"
  by (simp add: create_ethernet_header_def)

lemma main_loop_step:
  assumes "0 \<le> base" "base < 4294967296" "i < 50"
  shows "main_loop base (int i # rest) (160 * int i) f =
    main_loop base rest (160 * int (Suc i)) (f @ [record_of base i])"
proof -
  have ip: "create_ip_header 160 =
      Inr ([0x45, 0] @ rev (le_bytes 2 200) @
           [0x12, 0x34, 0, 0, 64, 17, 0, 0, 0x7f, 0, 0, 1, 0x7f, 0, 0, 1])"
    using create_ip_header_in_range [of 160] by simp
  have udp: "create_udp_header 160 =
      Inr ([0x30, 0x39, 0x17, 0x70] @ rev (le_bytes 2 180) @ [0, 0])"
    using create_udp_header_in_range [of 160] by simp
  have rtp: "create_rtp_header (int i + 1000) (160 * int i) default_ssrc =
      Inr ([0x80, 8] @ rev (le_bytes 2 (int i + 1000)) @ rev (le_bytes 4 (160 * int i)) @
           rev (le_bytes 4 default_ssrc))"
    using assms(3) by (intro create_rtp_header_in_range) (simp_all add: default_ssrc_def)
  have t: "int i * 20000 div 1000000 = 0" "int i * 20000 mod 1000000 = int i * 20000"
    using assms(3) by simp_all
  have len: "length (frame_of i) = 214"
    by (simp add: frame_of_def length_create_ethernet_header length_payload20)
  have r: "create_pcap_record (frame_of i) base (int i * 20000) = Inr (record_of base i)"
    using assms create_pcap_record_in_range [of base "int i * 20000" "frame_of i"]
    by (simp add: len record_of_def)
  have e: "160 * int i + 160 = 160 * int (Suc i)"
    by simp
  have "main_loop base (int i # rest) (160 * int i) f =
      main_loop base rest (160 * int i + 160) (f @ [record_of base i])"
    using r
    by (simp add: generate_g711a_audio_payload20 length_payload20 ip udp rtp t Let_def
        frame_of_def del: of_nat_Suc)
  then show ?thesis
    by (simp only: e)
qed

lemma main_loop_upt:
  assumes "0 \<le> base" "base < 4294967296" "j \<le> 50"
  shows "i \<le> j \<Longrightarrow> main_loop base (map int [i..<j]) (160 * int i) f =
    Inr (160 * int j, f @ map (record_of base) [i..<j])"
proof (induction "j - i" arbitrary: i f)
  case 0
  then show ?case by simp
next
  case (Suc d)
  then have lt: "i < j" and d: "d = j - Suc i" and le: "Suc i \<le> j"
    by simp_all
  have i50: "i < 50"
    using lt assms(3) by simp
  have "main_loop base (map int [i..<j]) (160 * int i) f =
      main_loop base (map int [Suc i..<j]) (160 * int (Suc i)) (f @ [record_of base i])"
    using main_loop_step [OF assms(1,2) i50] lt by (simp add: upt_conv_Cons del: main_loop.simps)
  also have "\<dots> = Inr (160 * int j, (f @ [record_of base i]) @ map (record_of base) [Suc i..<j])"
    using d le by (rule Suc.hyps(1))
  finally show ?case
    using lt by (simp add: upt_conv_Cons)
qed

lemma main_eq:
  assumes "0 \<le> base" "base < 4294967296"
  shows "main base =
    Inr ([0xd4, 0xc3, 0xb2, 0xa1, 2, 0, 4, 0, 0, 0, 0, 0, 0, 0, 0, 0, 0xff, 0xff, 0, 0, 1, 0, 0, 0]
         # map (record_of base) [0..<50])"
proof -
  have "main_loop base (map int [0..<50]) (160 * int 0) f =
      Inr (160 * int 50, f @ map (record_of base) [0..<50])" for f
    using assms by (intro main_loop_upt) simp_all
  then show ?thesis
    by (simp add: main_def create_pcap_header_eq py_range_def del: upt_Suc)
qed

section \<open>The fields of the records\<close>

lemma field_append_left: "off + n \<le> length xs \<Longrightarrow> field off n (xs @ ys) = field off n xs"
  by (simp add: field_def)

lemma read_records_concat:
  assumes "list_all (\<lambda>r. 16 \<le> length r \<and> rec_incl_len r = int (length r) - 16) rs"
  shows "read_records (concat rs) = Some rs"
  using assms
proof (induction rs)
  case Nil
  show ?case by (simp add: read_records.simps)
next
  case (Cons r rs)
  then have len: "16 \<le> length r" and incl: "rec_incl_len r = int (length r) - 16"
    and rest: "read_records (concat rs) = Some rs"
    by simp_all
  have "rec_incl_len (r @ concat rs) = rec_incl_len r"
    using len by (simp add: rec_incl_len_def field_append_left)
  then have n: "16 + nat (rec_incl_len (r @ concat rs)) = length r"
    using len incl by simp
  have ne: "r \<noteq> []"
    using len by auto
  have "read_records (r @ concat rs) =
      map_option ((#) (take (length r) (r @ concat rs)))
        (read_records (drop (length r) (r @ concat rs)))"
    using len ne by (subst read_records.simps) (simp add: n Let_def del: rec_incl_len_def)
  then show ?case
    by (simp add: rest)
qed

lemma length_frame_of: "length (frame_of i) = 214"
  by (simp add: frame_of_def length_create_ethernet_header length_payload20)

lemma length_record_of: "length (record_of base i) = 230"
  by (simp add: record_of_def length_frame_of)

lemma rec_frame_record_of: "rec_frame (record_of base i) = frame_of i"
  by (simp add: rec_frame_def record_of_def)

lemma rec_ts_sec_record_of:
  "0 \<le> base \<Longrightarrow> base < 4294967296 \<Longrightarrow> rec_ts_sec (record_of base i) = base"
  by (simp add: rec_ts_sec_def record_of_def field_def le_int_le_bytes_id)

lemma rec_ts_usec_record_of: "i < 50 \<Longrightarrow> rec_ts_usec (record_of base i) = int i * 20000"
  by (simp add: rec_ts_usec_def record_of_def field_def le_int_le_bytes_id)

lemma rec_incl_len_record_of: "rec_incl_len (record_of base i) = 214"
  by (simp add: rec_incl_len_def record_of_def field_def le_int_le_bytes_id)

lemma rec_orig_len_record_of: "rec_orig_len (record_of base i) = 214"
  by (simp add: rec_orig_len_def record_of_def field_def le_int_le_bytes_id)

lemma ip_total_length_frame_of: "ip_total_length (frame_of i) = 200"
  by (simp add: ip_total_length_def frame_of_def create_ethernet_header_def field_def
      be_int_rev_le_bytes)

lemma udp_length_frame_of: "udp_length (frame_of i) = 180"
  by (simp add: udp_length_def frame_of_def create_ethernet_header_def field_def
      be_int_rev_le_bytes)

lemma rtp_seq_num_frame_of: "i < 50 \<Longrightarrow> rtp_seq_num (frame_of i) = 1000 + int i"
  by (simp add: rtp_seq_num_def frame_of_def create_ethernet_header_def field_def
      be_int_rev_le_bytes)

lemma rtp_timestamp_of_frame_of: "i < 50 \<Longrightarrow> rtp_timestamp_of (frame_of i) = 160 * int i"
  by (simp add: rtp_timestamp_of_def frame_of_def create_ethernet_header_def field_def
      be_int_rev_le_bytes)

lemma rtp_payload_frame_of: "rtp_payload (frame_of i) = payload20"
  by (simp add: rtp_payload_def frame_of_def create_ethernet_header_def)

lemma hd_map_upt: "0 < n \<Longrightarrow> hd (map f [0..<n]) = f 0"
  by (simp add: hd_map hd_upt del: upt_Suc)

lemma last_map_upt: "0 < n \<Longrightarrow> last (map f [0..<n]) = f (n - 1)"
  by (simp add: last_map last_upt del: upt_Suc)

lemma hd_map_record_of: "hd (map (record_of base) [0..<50]) = record_of base 0"
  by (rule hd_map_upt) simp

lemma last_map_record_of: "last (map (record_of base) [0..<50]) = record_of base 49"
  using last_map_upt [of 50 "record_of base"] by simp

lemma records_Cons: "records (h # rs) = rs"
  by (simp add: records_def)

lemma main_records:
  assumes "0 \<le> base" "base < 4294967296"
  shows "main base = Inr (pcap_header_bytes # map (record_of base) [0..<50])"
  using main_eq [OF assms] by (simp only: pcap_header_bytes_def)

lemma map_records:
  assumes "\<And>i. i < n \<Longrightarrow> g (record_of base i) = h i"
  shows "map g (map (record_of base) [0..<n]) = map h [0..<n]"
  using assms by simp

lemma map_records_same:
  assumes "\<And>i. i < n \<Longrightarrow> g (record_of base i) = h (record_of base i)"
  shows "map g (map (record_of base) [0..<n]) = map h (map (record_of base) [0..<n])"
  using assms by simp

section \<open>The capture of a run\<close>

text \<open>
  Claim C1.  In every record of the capture a run writes, the total-length field of the
  IPv4 header is \<open>20 + 8 + 12\<close> plus the length of the payload, and the length field of the
  UDP header is \<open>8 + 12\<close> plus the length of the payload; the payload of the first record
  has 160 bytes and its total-length field is 200.  The run completes when the wall
  clock fits the 32-bit seconds field of the record header.
\<close>

theorem header_length_fields_match_payload:
  assumes "0 \<le> base_timestamp" "base_timestamp < 4294967296"
  shows "\<exists>f. main base_timestamp = Inr f \<and>
    map (\<lambda>r. ip_total_length (rec_frame r)) (records f) =
      map (\<lambda>r. 20 + 8 + 12 + int (length (rtp_payload (rec_frame r)))) (records f) \<and>
    map (\<lambda>r. udp_length (rec_frame r)) (records f) =
      map (\<lambda>r. 8 + 12 + int (length (rtp_payload (rec_frame r)))) (records f) \<and>
    length (records f) = 50 \<and>
    length (rtp_payload (rec_frame (hd (records f)))) = 160 \<and>
    ip_total_length (rec_frame (hd (records f))) = 200"
proof -
  let ?rs = "map (record_of base_timestamp) [0..<50]"
  have m: "main base_timestamp = Inr (pcap_header_bytes # ?rs)"
    using assms by (rule main_records)
  have a: "map (\<lambda>r. ip_total_length (rec_frame r)) ?rs =
      map (\<lambda>r. 20 + 8 + 12 + int (length (rtp_payload (rec_frame r)))) ?rs"
    by (rule map_records_same)
      (simp add: rec_frame_record_of ip_total_length_frame_of rtp_payload_frame_of
        length_payload20)
  have b: "map (\<lambda>r. udp_length (rec_frame r)) ?rs =
      map (\<lambda>r. 8 + 12 + int (length (rtp_payload (rec_frame r)))) ?rs"
    by (rule map_records_same)
      (simp add: rec_frame_record_of udp_length_frame_of rtp_payload_frame_of
        length_payload20)
  have c: "length ?rs = 50"
    by simp
  have d: "length (rtp_payload (rec_frame (hd ?rs))) = 160"
    by (simp only: hd_map_record_of rec_frame_record_of rtp_payload_frame_of length_payload20)
  have e: "ip_total_length (rec_frame (hd ?rs)) = 200"
    by (simp only: hd_map_record_of rec_frame_record_of ip_total_length_frame_of)
  show ?thesis
    by (rule exI [of _ "pcap_header_bytes # ?rs"]) (simp only: records_Cons m a b c d e simp_thms)
qed

theorem header_length_fields_match_payload_witness:
  "(0::int) \<le> 1700000000 \<and> (1700000000::int) < 4294967296 \<and>
   (\<exists>f. main 1700000000 = Inr f \<and>
    map (\<lambda>r. ip_total_length (rec_frame r)) (records f) =
      map (\<lambda>r. 20 + 8 + 12 + int (length (rtp_payload (rec_frame r)))) (records f) \<and>
    map (\<lambda>r. udp_length (rec_frame r)) (records f) =
      map (\<lambda>r. 8 + 12 + int (length (rtp_payload (rec_frame r)))) (records f) \<and>
    length (records f) = 50 \<and>
    length (rtp_payload (rec_frame (hd (records f)))) = 160 \<and>
    ip_total_length (rec_frame (hd (records f))) = 200)"
proof -
  have h: "(0::int) \<le> 1700000000" "(1700000000::int) < 4294967296"
    by simp_all
  show ?thesis
    by (rule conjI [OF h(1) conjI [OF h(2) header_length_fields_match_payload [OF h]]])
qed

lemma list_all_records:
  assumes "\<And>i. i < n \<Longrightarrow> P (record_of base i)"
  shows "list_all P (map (record_of base) [0..<n])"
  using assms by (simp add: list_all_iff)

text \<open>
  Claim C2.  A run writes the 24-byte capture header and then exactly 50 records, each a
  16-byte record header followed by a frame of \<open>14 + 20 + 8 + 12 + 160 = 214\<close> bytes; in every
  record the captured-length field equals the original-length field and both equal the
  length of the frame that follows.  A reader that walks the bytes after the capture
  header by the captured-length fields finds exactly these 50 records.
\<close>

theorem fifty_records_of_230_bytes:
  assumes "0 \<le> base_timestamp" "base_timestamp < 4294967296"
  shows "\<exists>f. main base_timestamp = Inr f \<and>
    length (hd f) = 24 \<and>
    length (records f) = 50 \<and>
    map length (records f) = replicate 50 (16 + 214) \<and>
    map (\<lambda>r. length (rec_frame r)) (records f) = replicate 50 (14 + 20 + 8 + 12 + 160) \<and>
    map rec_incl_len (records f) = map rec_orig_len (records f) \<and>
    map rec_incl_len (records f) = map (\<lambda>r. int (length (rec_frame r))) (records f) \<and>
    read_records (drop 24 (concat f)) = Some (records f)"
proof -
  let ?rs = "map (record_of base_timestamp) [0..<50]"
  have m: "main base_timestamp = Inr (pcap_header_bytes # ?rs)"
    using assms by (rule main_records)
  have h: "length (hd (pcap_header_bytes # ?rs)) = 24"
    by (simp add: pcap_header_bytes_def)
  have c: "length ?rs = 50"
    by simp
  have "map length ?rs = map (\<lambda>i. 230) [0..<50]"
    by (rule map_records) (rule length_record_of)
  then have a: "map length ?rs = replicate 50 (16 + 214)"
    by (simp add: map_replicate_const del: upt_Suc)
  have "map (\<lambda>r. length (rec_frame r)) ?rs = map (\<lambda>i. 214) [0..<50]"
    by (rule map_records) (simp add: rec_frame_record_of length_frame_of)
  then have b: "map (\<lambda>r. length (rec_frame r)) ?rs = replicate 50 (14 + 20 + 8 + 12 + 160)"
    by (simp add: map_replicate_const del: upt_Suc)
  have d: "map rec_incl_len ?rs = map rec_orig_len ?rs"
    by (rule map_records_same) (simp add: rec_incl_len_record_of rec_orig_len_record_of)
  have e: "map rec_incl_len ?rs = map (\<lambda>r. int (length (rec_frame r))) ?rs"
    by (rule map_records_same)
      (simp add: rec_incl_len_record_of rec_frame_record_of length_frame_of)
  have "list_all (\<lambda>r. 16 \<le> length r \<and> rec_incl_len r = int (length r) - 16) ?rs"
    by (rule list_all_records) (simp add: rec_incl_len_record_of length_record_of)
  then have "read_records (concat ?rs) = Some ?rs"
    by (rule read_records_concat)
  moreover have "drop 24 (concat (pcap_header_bytes # ?rs)) = concat ?rs"
    by (simp add: pcap_header_bytes_def del: upt_Suc)
  ultimately have g: "read_records (drop 24 (concat (pcap_header_bytes # ?rs))) = Some ?rs"
    by (simp only:)
  show ?thesis
    by (rule exI [of _ "pcap_header_bytes # ?rs"])
      (simp only: records_Cons, intro conjI m h c a b d e g)
qed

theorem fifty_records_of_230_bytes_witness:
  "(0::int) \<le> 1700000000 \<and> (1700000000::int) < 4294967296 \<and>
   (\<exists>f. main 1700000000 = Inr f \<and>
    length (hd f) = 24 \<and>
    length (records f) = 50 \<and>
    map length (records f) = replicate 50 (16 + 214) \<and>
    map (\<lambda>r. length (rec_frame r)) (records f) = replicate 50 (14 + 20 + 8 + 12 + 160) \<and>
    map rec_incl_len (records f) = map rec_orig_len (records f) \<and>
    map rec_incl_len (records f) = map (\<lambda>r. int (length (rec_frame r))) (records f) \<and>
    read_records (drop 24 (concat f)) = Some (records f))"
proof -
  have h: "(0::int) \<le> 1700000000" "(1700000000::int) < 4294967296"
    by simp_all
  show ?thesis
    by (rule conjI [OF h(1) conjI [OF h(2) fifty_records_of_230_bytes [OF h]]])
qed

text \<open>
  Claim C3.  The RTP sequence numbers of the 50 records, in write order, are
  \<open>1000, 1001, \<dots>, 1049\<close>: the record of index \<open>i\<close> carries \<open>1000 + i\<close>.
\<close>

theorem sequence_numbers_from_1000:
  assumes "0 \<le> base_timestamp" "base_timestamp < 4294967296"
  shows "\<exists>f. main base_timestamp = Inr f \<and>
    map (\<lambda>r. rtp_seq_num (rec_frame r)) (records f) = map (\<lambda>i. 1000 + int i) [0..<50]"
proof -
  let ?rs = "map (record_of base_timestamp) [0..<50]"
  have m: "main base_timestamp = Inr (pcap_header_bytes # ?rs)"
    using assms by (rule main_records)
  have a: "map (\<lambda>r. rtp_seq_num (rec_frame r)) ?rs = map (\<lambda>i. 1000 + int i) [0..<50]"
    by (rule map_records) (simp add: rec_frame_record_of rtp_seq_num_frame_of)
  show ?thesis
    by (rule exI [of _ "pcap_header_bytes # ?rs"]) (simp only: records_Cons m a simp_thms)
qed

theorem sequence_numbers_from_1000_witness:
  "(0::int) \<le> 1700000000 \<and> (1700000000::int) < 4294967296 \<and>
   (\<exists>f. main 1700000000 = Inr f \<and>
    map (\<lambda>r. rtp_seq_num (rec_frame r)) (records f) = map (\<lambda>i. 1000 + int i) [0..<50])"
proof -
  have h: "(0::int) \<le> 1700000000" "(1700000000::int) < 4294967296"
    by simp_all
  show ?thesis
    by (rule conjI [OF h(1) conjI [OF h(2) sequence_numbers_from_1000 [OF h]]])
qed

text \<open>
  Claim C4.  The RTP timestamps of the 50 records, in write order, are
  \<open>0, 160, 320, \<dots>, 7840\<close>: the record of index \<open>i\<close> carries \<open>160 * i\<close>.
\<close>

theorem media_timestamps_step_160:
  assumes "0 \<le> base_timestamp" "base_timestamp < 4294967296"
  shows "\<exists>f. main base_timestamp = Inr f \<and>
    map (\<lambda>r. rtp_timestamp_of (rec_frame r)) (records f) = map (\<lambda>i. 160 * int i) [0..<50]"
proof -
  let ?rs = "map (record_of base_timestamp) [0..<50]"
  have m: "main base_timestamp = Inr (pcap_header_bytes # ?rs)"
    using assms by (rule main_records)
  have a: "map (\<lambda>r. rtp_timestamp_of (rec_frame r)) ?rs = map (\<lambda>i. 160 * int i) [0..<50]"
    by (rule map_records) (simp add: rec_frame_record_of rtp_timestamp_of_frame_of)
  show ?thesis
    by (rule exI [of _ "pcap_header_bytes # ?rs"]) (simp only: records_Cons m a simp_thms)
qed

theorem media_timestamps_step_160_witness:
  "(0::int) \<le> 1700000000 \<and> (1700000000::int) < 4294967296 \<and>
   (\<exists>f. main 1700000000 = Inr f \<and>
    map (\<lambda>r. rtp_timestamp_of (rec_frame r)) (records f) = map (\<lambda>i. 160 * int i) [0..<50])"
proof -
  have h: "(0::int) \<le> 1700000000" "(1700000000::int) < 4294967296"
    by simp_all
  show ?thesis
    by (rule conjI [OF h(1) conjI [OF h(2) media_timestamps_step_160 [OF h]]])
qed

lemma drop_8_record_of: "drop 8 (record_of base i) = drop 8 (record_of base' i)"
  by (simp add: record_of_def)

text \<open>
  Claim C5.  Two runs, at any two wall-clock values, write the same capture header and
  the same number of records of the same lengths, and corresponding records agree in
  every byte from offset 8 on, that is, in everything but the seconds and microseconds
  fields of the record header.
\<close>

theorem runs_differ_only_in_timestamp_fields:
  assumes "0 \<le> base_timestamp" "base_timestamp < 4294967296"
    "0 \<le> base_timestamp'" "base_timestamp' < 4294967296"
  shows "\<exists>f f'. main base_timestamp = Inr f \<and> main base_timestamp' = Inr f' \<and>
    hd f = hd f' \<and>
    length (records f) = length (records f') \<and>
    map length (records f) = map length (records f') \<and>
    map (drop 8) (records f) = map (drop 8) (records f')"
proof -
  let ?rs = "map (record_of base_timestamp) [0..<50]"
  let ?rs' = "map (record_of base_timestamp') [0..<50]"
  have m: "main base_timestamp = Inr (pcap_header_bytes # ?rs)"
    using assms(1,2) by (rule main_records)
  have m': "main base_timestamp' = Inr (pcap_header_bytes # ?rs')"
    using assms(3,4) by (rule main_records)
  have h: "hd (pcap_header_bytes # ?rs) = hd (pcap_header_bytes # ?rs')"
    by simp
  have c: "length ?rs = length ?rs'"
    by simp
  have a: "map length ?rs = map length ?rs'"
    by (simp add: length_record_of del: upt_Suc)
  have b: "map (drop 8) ?rs = map (drop 8) ?rs'"
    using drop_8_record_of [of base_timestamp _ base_timestamp'] by (simp del: upt_Suc)
  show ?thesis
    by (rule exI [of _ "pcap_header_bytes # ?rs"], rule exI [of _ "pcap_header_bytes # ?rs'"])
      (simp only: records_Cons, intro conjI m m' h c a b)
qed

theorem runs_differ_only_in_timestamp_fields_witness:
  "(0::int) \<le> 1700000000 \<and> (1700000000::int) < 4294967296 \<and>
   (0::int) \<le> 1800000000 \<and> (1800000000::int) < 4294967296 \<and>
   (\<exists>f f'. main 1700000000 = Inr f \<and> main 1800000000 = Inr f' \<and>
    hd f = hd f' \<and>
    length (records f) = length (records f') \<and>
    map length (records f) = map length (records f') \<and>
    map (drop 8) (records f) = map (drop 8) (records f'))"
proof -
  have h: "(0::int) \<le> 1700000000" "(1700000000::int) < 4294967296"
    "(0::int) \<le> 1800000000" "(1800000000::int) < 4294967296"
    by simp_all
  show ?thesis
    by (intro conjI h runs_differ_only_in_timestamp_fields [OF h])
qed

text \<open>
  Claim C6, as amended.  The claim gives the span between the capture timestamps of the
  first and the last record as \<open>50 \<times> 20 ms = 1000 ms\<close>.  The last record has index 49, so
  the span is \<open>49 \<times> 20 ms = 980 ms\<close>, that is 980000 microseconds.
\<close>

theorem capture_spans_980_ms:
  assumes "0 \<le> base_timestamp" "base_timestamp < 4294967296"
  shows "\<exists>f. main base_timestamp = Inr f \<and> capture_span_usec f = 49 * 20 * 1000"
proof -
  let ?rs = "map (record_of base_timestamp) [0..<50]"
  have m: "main base_timestamp = Inr (pcap_header_bytes # ?rs)"
    using assms by (rule main_records)
  have "capture_time_usec (record_of base_timestamp 49) -
      capture_time_usec (record_of base_timestamp 0) = 49 * 20 * 1000"
    using assms
    by (simp add: capture_time_usec_def rec_ts_sec_record_of rec_ts_usec_record_of)
  then have a: "capture_span_usec (pcap_header_bytes # ?rs) = 49 * 20 * 1000"
    by (simp only: capture_span_usec_def records_Cons hd_map_record_of last_map_record_of)
  show ?thesis
    by (rule exI [of _ "pcap_header_bytes # ?rs"]) (intro conjI m a)
qed

theorem capture_spans_980_ms_witness:
  "(0::int) \<le> 1700000000 \<and> (1700000000::int) < 4294967296 \<and>
   (\<exists>f. main 1700000000 = Inr f \<and> capture_span_usec f = 49 * 20 * 1000)"
proof -
  have h: "(0::int) \<le> 1700000000" "(1700000000::int) < 4294967296"
    by simp_all
  show ?thesis
    by (intro conjI h capture_spans_980_ms [OF h])
qed

lemma capture_span_usec_main:
  assumes "0 \<le> base" "base < 4294967296"
  shows "map_sum id capture_span_usec (main base) = Inr 980000"
proof -
  have "capture_time_usec (record_of base 49) - capture_time_usec (record_of base 0) = 980000"
    using assms
    by (simp add: capture_time_usec_def rec_ts_sec_record_of rec_ts_usec_record_of)
  then have "capture_span_usec (pcap_header_bytes # map (record_of base) [0..<50]) = 980000"
    by (simp only: capture_span_usec_def records_Cons hd_map_record_of last_map_record_of)
  then show ?thesis
    by (simp only: main_records [OF assms] map_sum.simps)
qed

text \<open>The claim as stated fails for a run at wall-clock time 1700000000.\<close>

theorem capture_span_is_not_1000_ms:
  "map_sum id capture_span_usec (main 1700000000) = Inr 980000 \<and>
   map_sum id capture_span_usec (main 1700000000) \<noteq> Inr (50 * 20 * 1000)"
proof -
  have "map_sum id capture_span_usec (main 1700000000) = Inr 980000"
    by (rule capture_span_usec_main) simp_all
  then show ?thesis
    by simp
qed

text \<open>
  Claim C9.  All 50 records of a run carry the same payload: the 160 bytes that the
  synthesizer returns for the duration 20.
\<close>

theorem every_record_carries_the_same_payload:
  assumes "0 \<le> base_timestamp" "base_timestamp < 4294967296"
  shows "\<exists>f payload. main base_timestamp = Inr f \<and>
    generate_g711a_audio (PyInt 20) = Inr payload \<and>
    length payload = 160 \<and>
    map (\<lambda>r. rtp_payload (rec_frame r)) (records f) = replicate 50 payload"
proof -
  let ?rs = "map (record_of base_timestamp) [0..<50]"
  have m: "main base_timestamp = Inr (pcap_header_bytes # ?rs)"
    using assms by (rule main_records)
  have "map (\<lambda>r. rtp_payload (rec_frame r)) ?rs = map (\<lambda>i. payload20) [0..<50]"
    by (rule map_records) (simp add: rec_frame_record_of rtp_payload_frame_of)
  then have a: "map (\<lambda>r. rtp_payload (rec_frame r)) ?rs = replicate 50 payload20"
    by (simp add: map_replicate_const del: upt_Suc)
  show ?thesis
    by (rule exI [of _ "pcap_header_bytes # ?rs"], rule exI [of _ payload20])
      (simp only: records_Cons, intro conjI m generate_g711a_audio_payload20 length_payload20 a)
qed

theorem every_record_carries_the_same_payload_witness:
  "(0::int) \<le> 1700000000 \<and> (1700000000::int) < 4294967296 \<and>
   (\<exists>f payload. main 1700000000 = Inr f \<and>
    generate_g711a_audio (PyInt 20) = Inr payload \<and>
    length payload = 160 \<and>
    map (\<lambda>r. rtp_payload (rec_frame r)) (records f) = replicate 50 payload)"
proof -
  have h: "(0::int) \<le> 1700000000" "(1700000000::int) < 4294967296"
    by simp_all
  show ?thesis
    by (intro conjI h every_record_carries_the_same_payload [OF h])
qed

text \<open>
  Claim C10.  In the record of index \<open>i\<close> the microseconds field is
  \<open>(i * 20000) mod 1000000\<close>; it lies between 0 and \<open>49 * 20000 = 980000\<close>, hence in
  \<open>[0, 999999]\<close>; the carry \<open>(i * 20000) div 1000000\<close> is 0 for every record, and the seconds
  field is the wall-clock value of the run, unchanged.
\<close>

theorem record_timestamps_never_carry:
  assumes "0 \<le> base_timestamp" "base_timestamp < 4294967296"
  shows "\<exists>f. main base_timestamp = Inr f \<and>
    map rec_ts_usec (records f) = map (\<lambda>i. (int i * 20000) mod 1000000) [0..<50] \<and>
    list_all (\<lambda>u. 0 \<le> u \<and> u \<le> 49 * 20000 \<and> u \<le> 999999) (map rec_ts_usec (records f)) \<and>
    map rec_ts_sec (records f) = replicate 50 base_timestamp \<and>
    map (\<lambda>i. (int i * 20000) div 1000000) [0..<50] = replicate 50 0"
proof -
  let ?rs = "map (record_of base_timestamp) [0..<50]"
  have m: "main base_timestamp = Inr (pcap_header_bytes # ?rs)"
    using assms by (rule main_records)
  have a: "map rec_ts_usec ?rs = map (\<lambda>i. (int i * 20000) mod 1000000) [0..<50]"
    by (rule map_records) (simp add: rec_ts_usec_record_of)
  have "list_all (\<lambda>r. 0 \<le> rec_ts_usec r \<and> rec_ts_usec r \<le> 49 * 20000 \<and>
      rec_ts_usec r \<le> 999999) ?rs"
    by (rule list_all_records) (simp add: rec_ts_usec_record_of)
  then have b: "list_all (\<lambda>u. 0 \<le> u \<and> u \<le> 49 * 20000 \<and> u \<le> 999999) (map rec_ts_usec ?rs)"
    by (simp only: list_all_iff set_map ball_simps)
  have "map rec_ts_sec ?rs = map (\<lambda>i. base_timestamp) [0..<50]"
    by (rule map_records) (simp add: rec_ts_sec_record_of assms)
  then have c: "map rec_ts_sec ?rs = replicate 50 base_timestamp"
    by (simp add: map_replicate_const del: upt_Suc)
  have "i < 50 \<Longrightarrow> (int i * 20000) div 1000000 = 0" for i
    by simp
  then have "map (\<lambda>i. (int i * 20000) div 1000000) [0..<50] = map (\<lambda>i. 0) [0..<50]"
    by (simp del: upt_Suc)
  then have d: "map (\<lambda>i. (int i * 20000) div 1000000) [0..<50] = replicate 50 0"
    by (simp add: map_replicate_const del: upt_Suc)
  show ?thesis
    by (rule exI [of _ "pcap_header_bytes # ?rs"])
      (simp only: records_Cons, intro conjI m a b c d)
qed

theorem record_timestamps_never_carry_witness:
  "(0::int) \<le> 1700000000 \<and> (1700000000::int) < 4294967296 \<and>
   (\<exists>f. main 1700000000 = Inr f \<and>
    map rec_ts_usec (records f) = map (\<lambda>i. (int i * 20000) mod 1000000) [0..<50] \<and>
    list_all (\<lambda>u. 0 \<le> u \<and> u \<le> 49 * 20000 \<and> u \<le> 999999) (map rec_ts_usec (records f)) \<and>
    map rec_ts_sec (records f) = replicate 50 1700000000 \<and>
    map (\<lambda>i. (int i * 20000) div 1000000) [0..<50] = replicate 50 0)"
proof -
  have h: "(0::int) \<le> 1700000000" "(1700000000::int) < 4294967296"
    by simp_all
  show ?thesis
    by (intro conjI h record_timestamps_never_carry [OF h])
qed

end
